theory Spec2Isabelle
  imports Main
begin

section \<open>Python values, exceptions and effects\<close>

text \<open>
  The two modules of the repository, \<^verbatim>\<open>uptane_banners.py\<close> and \<^verbatim>\<open>uptane_sounds.py\<close>,
  are embedded as HOL functions. A Python string is a list of characters (a \<^typ>\<open>char\<close>
  stands for a code point below 256), a Python integer is an \<^typ>\<open>int\<close>. What a function
  does to the terminal or to the process table is returned as the list of its effects, in
  the order in which they happen, beside its result; a raised exception is the \<open>Inl\<close>
  of the result, and the effects listed with it are those that happened before the raise.
\<close>

datatype exn =
    Exception string              \<comment> \<open>\<^verbatim>\<open>raise Exception(msg)\<close> of the repository itself\<close>
  | ValueError_max_empty          \<comment> \<open>\<^verbatim>\<open>max()\<close> of an empty sequence\<close>
  | ValueError_invalid_width int  \<comment> \<open>\<^verbatim>\<open>textwrap\<close>: invalid width (must be > 0)\<close>
  | ValueError_sleep_negative     \<comment> \<open>\<^verbatim>\<open>time.sleep\<close> of a negative number\<close>
  | KeyError string               \<comment> \<open>\<^verbatim>\<open>os.environ[name]\<close> of an unset variable\<close>
  | OSError                       \<comment> \<open>\<^verbatim>\<open>Popen\<close>: the program cannot be started (\<^verbatim>\<open>FileNotFoundError\<close>, ...)\<close>

datatype effect =
    Clear                 \<comment> \<open>\<^verbatim>\<open>clear_screen()\<close>\<close>
  | Print string          \<comment> \<open>\<^verbatim>\<open>print(s)\<close>: one line on the terminal\<close>
  | Sleep int             \<comment> \<open>\<^verbatim>\<open>time.sleep(n)\<close>\<close>
  | Popen "string list"   \<comment> \<open>\<^verbatim>\<open>Popen(argv, ...)\<close> has spawned a child process\<close>
  | Wait                  \<comment> \<open>\<^verbatim>\<open>proc.wait()\<close>\<close>

text \<open>The optional caption \<^verbatim>\<open>text\<close>: not passed (\<^verbatim>\<open>False\<close>), a string, or a list of lines.\<close>

datatype caption = NoText | TextStr string | TextList "string list"

text \<open>Python's truth value of an optional string argument and of a caption.\<close>

definition truthy :: "string option \<Rightarrow> bool" where
  "truthy a = (case a of None \<Rightarrow> False | Some s \<Rightarrow> s \<noteq> [])"

definition caption_truthy :: "caption \<Rightarrow> bool" where
  "caption_truthy t = (case t of NoText \<Rightarrow> False | TextStr s \<Rightarrow> s \<noteq> [] | TextList ls \<Rightarrow> ls \<noteq> [])"

text \<open>\<^verbatim>\<open>n * " "\<close>: no character when \<open>n\<close> is negative.\<close>

definition spaces :: "int \<Rightarrow> string" where
  "spaces n = replicate (nat n) CHR '' ''"

text \<open>\<^verbatim>\<open>s.split(sep)\<close> for a one-character separator; \<open>cur\<close> is the piece being read.\<close>

fun split_acc :: "char \<Rightarrow> string \<Rightarrow> string \<Rightarrow> string list" where
  "split_acc sep cur [] = [cur]"
| "split_acc sep cur (c # cs) =
     (if c = sep then cur # split_acc sep [] cs else split_acc sep (cur @ [c]) cs)"

definition split_str :: "char \<Rightarrow> string \<Rightarrow> string list" where
  "split_str sep s = split_acc sep [] s"

section \<open>The library's \<^verbatim>\<open>textwrap.wrap\<close>\<close>

text \<open>
  \<^verbatim>\<open>print_banner\<close> wraps every caption line with \<^verbatim>\<open>textwrap.wrap(line, width)\<close> of
  Python's standard library. The function is modelled here from the library's source, as
  of CPython 3.11 (\<^verbatim>\<open>TextWrapper\<close> with its default options: tabs expanded, whitespace replaced, long words
  broken, hyphens as break points, whitespace dropped at line ends, no indent, no line
  limit), method by method.
\<close>

subsection \<open>Character classes\<close>

definition tab :: char where "tab = CHR 0x09"
definition newline :: char where "newline = CHR 0x0A"
definition hyphen :: char where "hyphen = CHR ''-''"

text \<open>\<^verbatim>\<open>_whitespace = '\t\n\x0b\x0c\r '\<close>.\<close>

definition is_whitespace :: "char \<Rightarrow> bool" where
  "is_whitespace c = (c \<in> set [CHR 0x09, CHR 0x0A, CHR 0x0B, CHR 0x0C, CHR 0x0D, CHR '' ''])"

text \<open>\<^verbatim>\<open>str.isspace\<close>, which decides \<^verbatim>\<open>chunk.strip() == ''\<close>.\<close>

definition isspace :: "char \<Rightarrow> bool" where
  "isspace c = (let n = (of_char c :: nat) in
     (9 \<le> n \<and> n \<le> 13) \<or> (28 \<le> n \<and> n \<le> 32) \<or> n = 133 \<or> n = 160)"

definition blank :: "string \<Rightarrow> bool" where
  "blank chunk = list_all isspace chunk"

text \<open>The regular expression classes \<^verbatim>\<open>\d\<close>, \<^verbatim>\<open>\w\<close>, \<^verbatim>\<open>[^\d\W]\<close> and \<^verbatim>\<open>[\w!"'&.,?]\<close>.\<close>

definition is_digit :: "char \<Rightarrow> bool" where
  "is_digit c = (let n = (of_char c :: nat) in 48 \<le> n \<and> n \<le> 57)"

definition is_word :: "char \<Rightarrow> bool" where
  "is_word c = (let n = (of_char c :: nat) in
     (48 \<le> n \<and> n \<le> 57) \<or> (65 \<le> n \<and> n \<le> 90) \<or> n = 95 \<or> (97 \<le> n \<and> n \<le> 122) \<or>
     n = 170 \<or> n = 178 \<or> n = 179 \<or> n = 181 \<or> n = 185 \<or> n = 186 \<or>
     (188 \<le> n \<and> n \<le> 190) \<or> (192 \<le> n \<and> n \<le> 214) \<or> (216 \<le> n \<and> n \<le> 246) \<or>
     (248 \<le> n \<and> n \<le> 255))"

definition letter :: "char \<Rightarrow> bool" where
  "letter c = (is_word c \<and> \<not> is_digit c)"

definition word_punct :: "char \<Rightarrow> bool" where
  "word_punct c = (is_word c \<or>
     c \<in> set [CHR ''!'', CHR 0x22, CHR 0x27, CHR ''&'', CHR ''.'', CHR '','', CHR ''?''])"

subsection \<open>\<^verbatim>\<open>_munge_whitespace\<close>\<close>

text \<open>\<^verbatim>\<open>text.expandtabs(8)\<close>; \<open>col\<close> is the column reached in the current line.\<close>

fun expandtabs :: "nat \<Rightarrow> string \<Rightarrow> string" where
  "expandtabs col [] = []"
| "expandtabs col (c # cs) =
     (if c = tab then
        (let incr = 8 - col mod 8 in replicate incr CHR '' '' @ expandtabs (col + incr) cs)
      else if c = newline \<or> c = CHR 0x0D then c # expandtabs 0 cs
      else c # expandtabs (col + 1) cs)"

definition munge_whitespace :: "string \<Rightarrow> string" where
  "munge_whitespace text =
     map (\<lambda>c. if is_whitespace c then CHR '' '' else c) (expandtabs 0 text)"

subsection \<open>\<^verbatim>\<open>_split\<close>: the chunks of \<^verbatim>\<open>wordsep_re\<close>\<close>

text \<open>
  \<^verbatim>\<open>wordsep_re.split(text)\<close> cuts the text at the successive matches of the expression and
  returns the matches (its one group) with the pieces between them. At a position, the
  alternatives are tried in order: a run of whitespace; an em-dash between words,
  \<^verbatim>\<open>(?<=[\w!"'&.,?]) -{2,} (?=\w)\<close>; a word, \<^verbatim>\<open>[^ws]+?\<close> as short as possible, up to and
  including the hyphen of a hyphenated word, or up to the end of the word, or up to an
  em-dash. Below, \<open>bef\<close> holds the characters before the position, the nearest first
  (what a look-behind reads), and the other argument those from the position on.
\<close>

definition hyphens :: "string \<Rightarrow> nat" where
  "hyphens s = length (takeWhile (\<lambda>c. c = hyphen) s)"

text \<open>\<^verbatim>\<open>(?=-{2,}\w)\<close>: two hyphens or more, then a word character.\<close>

definition emdash_ahead :: "string \<Rightarrow> bool" where
  "emdash_ahead s =
     (2 \<le> hyphens s \<and> (case drop (hyphens s) s of [] \<Rightarrow> False | c # _ \<Rightarrow> is_word c))"

text \<open>\<^verbatim>\<open>(?<=[\w!"'&.,?])\<close>.\<close>

definition word_punct_behind :: "string \<Rightarrow> bool" where
  "word_punct_behind bef = (case bef of [] \<Rightarrow> False | c # _ \<Rightarrow> word_punct c)"

text \<open>
  The hyphen of a hyphenated word, \<^verbatim>\<open>-(?: (?<=lt{2}-) | (?<=lt-lt-)) (?= lt -? lt)\<close>, at a
  position whose next character is \<open>c\<close>, followed by \<open>cs\<close>.
\<close>

definition hyphen_break :: "string \<Rightarrow> char \<Rightarrow> string \<Rightarrow> bool" where
  "hyphen_break bef c cs =
     (c = hyphen \<and>
      (case bef of
         a # b # rest \<Rightarrow>
           (letter a \<and> letter b) \<or>
           (letter a \<and> b = hyphen \<and> (case rest of [] \<Rightarrow> False | d # _ \<Rightarrow> letter d))
       | _ \<Rightarrow> False) \<and>
      (case cs of
         x # y # rest \<Rightarrow>
           letter x \<and> ((y = hyphen \<and> (case rest of [] \<Rightarrow> False | z # _ \<Rightarrow> letter z)) \<or> letter y)
       | _ \<Rightarrow> False))"

text \<open>
  The third alternative once the word has one character or more: how many characters more
  the shortest match takes.
\<close>

fun word_end :: "string \<Rightarrow> string \<Rightarrow> nat" where
  "word_end bef [] = 0"
| "word_end bef (c # cs) =
     (if hyphen_break bef c cs then 1
      else if is_whitespace c then 0
      else if word_punct_behind bef \<and> emdash_ahead (c # cs) then 0
      else Suc (word_end (c # bef) cs))"

text \<open>The length of the match at a position that is not the end of the text.\<close>

definition wordsep_match :: "string \<Rightarrow> char \<Rightarrow> string \<Rightarrow> nat" where
  "wordsep_match bef c cs =
     (if is_whitespace c then length (takeWhile is_whitespace (c # cs))
      else if word_punct_behind bef \<and> emdash_ahead (c # cs) then hyphens (c # cs)
      else Suc (word_end (c # bef) cs))"

lemma wordsep_match_pos: "0 < wordsep_match bef c cs"
  by (auto simp: wordsep_match_def emdash_ahead_def)

text \<open>
  Every position of the text starts a match (whitespace, or else a word that ends at the
  latest where the whitespace or the text does), so the pieces between the matches are
  all empty, and \<^verbatim>\<open>[c for c in chunks if c]\<close> leaves the matches.
\<close>

function wordsep_split :: "string \<Rightarrow> string \<Rightarrow> string list" where
  "wordsep_split bef [] = []"
| "wordsep_split bef (c # cs) =
     (let n = wordsep_match bef c cs
      in take n (c # cs) # wordsep_split (rev (take n (c # cs)) @ bef) (drop n (c # cs)))"
  by pat_completeness auto
termination
  by (relation "measure (\<lambda>(bef, s). length s)") (use wordsep_match_pos in auto)

definition split_chunks :: "string \<Rightarrow> string list" where
  "split_chunks text = filter (\<lambda>c. c \<noteq> []) (wordsep_split [] (munge_whitespace text))"

subsection \<open>\<^verbatim>\<open>_wrap_chunks\<close>\<close>

text \<open>
  The bound of a Python slice \<^verbatim>\<open>xs[:e]\<close> as a number of items: a negative \<open>e\<close> counts from
  the end.
\<close>

definition slice_end :: "int \<Rightarrow> 'a list \<Rightarrow> nat" where
  "slice_end e xs = (if e < 0 then nat (int (length xs) + e) else min (nat e) (length xs))"

text \<open>\<^verbatim>\<open>s.rfind(c, 0, e)\<close>: the last index of \<open>c\<close> in \<^verbatim>\<open>s[0:e]\<close>, or \<open>-1\<close>.\<close>

definition rfind :: "char \<Rightarrow> string \<Rightarrow> int \<Rightarrow> int" where
  "rfind c s e =
     (case filter (\<lambda>i. s ! i = c) (rev [0..<slice_end e s]) of
        [] \<Rightarrow> - 1
      | i # _ \<Rightarrow> int i)"

text \<open>
  The chunks are kept by the library on a reversed list used as a stack; here the list is
  in text order and its head is the top of that stack, \<^verbatim>\<open>chunks[-1]\<close>.

  \<^verbatim>\<open>_handle_long_word\<close>, with \<^verbatim>\<open>break_long_words\<close> and \<^verbatim>\<open>break_on_hyphens\<close> set: \<open>chunk\<close> is
  the top of the stack and \<open>rest\<close> what lies under it. The result is the current line and
  the stack afterwards.
\<close>

definition handle_long_word ::
  "string \<Rightarrow> string list \<Rightarrow> string list \<Rightarrow> int \<Rightarrow> int \<Rightarrow> string list \<times> string list" where
  "handle_long_word chunk rest cur_line cur_len width =
     (let space_left = (if width < 1 then 1 else width - cur_len);
          hyphen_at = rfind hyphen chunk space_left;
          end =
            (if int (length chunk) > space_left \<and> hyphen_at > 0 \<and>
                list_ex (\<lambda>c. c \<noteq> hyphen) (take (slice_end hyphen_at chunk) chunk)
             then hyphen_at + 1 else space_left)
      in (cur_line @ [take (slice_end end chunk) chunk],
          drop (slice_end end chunk) chunk # rest))"

text \<open>The inner loop: chunks are moved to the current line while they fit.\<close>

fun fit :: "int \<Rightarrow> string list \<Rightarrow> int \<Rightarrow> string list \<Rightarrow> string list \<times> int \<times> string list" where
  "fit width cur_line cur_len [] = (cur_line, cur_len, [])"
| "fit width cur_line cur_len (chunk # chunks) =
     (if cur_len + int (length chunk) \<le> width
      then fit width (cur_line @ [chunk]) (cur_len + int (length chunk)) chunks
      else (cur_line, cur_len, chunk # chunks))"

text \<open>
  One pass of the outer loop, entered with a stack that is not empty: the chunks of the
  line it builds (after the whitespace at its two ends has been dropped) and the stack it
  leaves. \<open>started\<close> is the truth value of \<^verbatim>\<open>lines\<close>.
\<close>

definition wrap_line :: "int \<Rightarrow> bool \<Rightarrow> string list \<Rightarrow> string list \<times> string list" where
  "wrap_line width started chunks =
     (let chunks1 =
            (case chunks of
               [] \<Rightarrow> []
             | chunk # rest \<Rightarrow> if blank chunk \<and> started then rest else chunks)
      in case fit width [] 0 chunks1 of
           (cur_line, cur_len, chunks2) \<Rightarrow>
             (case (case chunks2 of
                      [] \<Rightarrow> (cur_line, chunks2)
                    | chunk # rest \<Rightarrow>
                        if int (length chunk) > width
                        then handle_long_word chunk rest cur_line cur_len width
                        else (cur_line, chunks2)) of
                (cur_line2, chunks3) \<Rightarrow>
                  (if cur_line2 \<noteq> [] \<and> blank (last cur_line2)
                   then (butlast cur_line2, chunks3)
                   else (cur_line2, chunks3))))"

text \<open>What the termination of the outer loop is measured by.\<close>

definition stack_size :: "string list \<Rightarrow> nat" where
  "stack_size chunks = length (concat chunks) + length chunks"

lemma fit_extends:
  "fit w cl n chunks = (cl', n', chunks') \<Longrightarrow>
   \<exists>ys. cl' = cl @ ys \<and> chunks = ys @ chunks' \<and> n' = n + int (length (concat ys))"
proof (induction chunks arbitrary: cl n)
  case Nil then show ?case by simp
next
  case (Cons c chunks)
  show ?case
  proof (cases "n + int (length c) \<le> w")
    case True
    with Cons.prems have "fit w (cl @ [c]) (n + int (length c)) chunks = (cl', n', chunks')" by simp
    from Cons.IH[OF this] obtain ys where
      "cl' = (cl @ [c]) @ ys" "chunks = ys @ chunks'" "n' = n + int (length c) + int (length (concat ys))"
      by blast
    then have "cl' = cl @ (c # ys) \<and> c # chunks = (c # ys) @ chunks' \<and> n' = n + int (length (concat (c # ys)))"
      by simp
    then show ?thesis by blast
  next
    case False
    with Cons.prems show ?thesis by simp
  qed
qed

lemma fit_bound: "fit w cl n chunks = (cl', n', chunks') \<Longrightarrow> n \<le> w \<Longrightarrow> n' \<le> w"
proof (induction chunks arbitrary: cl n)
  case Nil then show ?case by simp
next
  case (Cons c chunks)
  show ?case
  proof (cases "n + int (length c) \<le> w")
    case True
    with Cons.prems have "fit w (cl @ [c]) (n + int (length c)) chunks = (cl', n', chunks')" by simp
    from Cons.IH[OF this True] show ?thesis by simp
  next
    case False
    with Cons.prems show ?thesis by simp
  qed
qed

lemma fit_stuck: "fit w cl n chunks = (cl', n', ch # rest) \<Longrightarrow> \<not> n' + int (length ch) \<le> w"
proof (induction chunks arbitrary: cl n)
  case Nil then show ?case by simp
next
  case (Cons c chunks)
  show ?case
  proof (cases "n + int (length c) \<le> w")
    case True
    with Cons.prems have "fit w (cl @ [c]) (n + int (length c)) chunks = (cl', n', ch # rest)" by simp
    from Cons.IH[OF this] show ?thesis .
  next
    case False
    with Cons.prems show ?thesis by simp
  qed
qed

lemma rfind_lt: "rfind c s e < int (slice_end e s)"
proof -
  have "\<forall>i \<in> set (filter (\<lambda>i. s ! i = c) (rev [0..<slice_end e s])). i < slice_end e s"
    by simp
  then show ?thesis
    unfolding rfind_def by (cases "filter (\<lambda>i. s ! i = c) (rev [0..<slice_end e s])") auto
qed

lemma handle_long_word_size:
  assumes "handle_long_word c r cl n w = (cl2, ch3)"
  shows "stack_size ch3 \<le> stack_size (c # r)"
  using assms by (auto simp: handle_long_word_def Let_def stack_size_def)

lemma handle_long_word_progress:
  assumes "handle_long_word c r cl 0 w = (cl2, ch3)" and "0 < w" and "w < int (length c)"
  shows "stack_size ch3 < stack_size (c # r)"
proof -
  define e where "e = (if int (length c) > w \<and> rfind hyphen c w > 0 \<and>
                list_ex (\<lambda>x. x \<noteq> hyphen) (take (slice_end (rfind hyphen c w) c) c)
             then rfind hyphen c w + 1 else w)"
  have "0 < e" using assms(2) by (simp add: e_def)
  then have "0 < slice_end e c" using assms(2,3) by (auto simp: slice_end_def)
  moreover have "ch3 = drop (slice_end e c) c # r"
    using assms(1,2) by (simp add: handle_long_word_def Let_def e_def)
  moreover have "0 < length c" using assms(2,3) by (cases c) auto
  ultimately show ?thesis by (simp add: stack_size_def)
qed

lemma wrap_line_decreases:
  assumes "0 < width" and "chunks \<noteq> []" and "wrap_line width started chunks = (cur_line, chunks')"
  shows "stack_size chunks' < stack_size chunks"
proof -
  define chunks1 where "chunks1 = (case chunks of [] \<Rightarrow> []
             | chunk # rest \<Rightarrow> if blank chunk \<and> started then rest else chunks)"
  obtain cl n chunks2 where f: "fit width [] 0 chunks1 = (cl, n, chunks2)"
    by (cases "fit width [] 0 chunks1") auto
  define r where "r = (case chunks2 of
                      [] \<Rightarrow> (cl, chunks2)
                    | chunk # rest \<Rightarrow>
                        if int (length chunk) > width
                        then handle_long_word chunk rest cl n width
                        else (cl, chunks2))"
  have res: "chunks' = snd r"
    using assms(3) f unfolding wrap_line_def chunks1_def [symmetric] Let_def
    by (simp add: r_def [symmetric] split: prod.splits if_splits)
  from fit_extends [OF f] have ext: "chunks1 = cl @ chunks2" "n = int (length (concat cl))"
    by auto
  have le1: "stack_size chunks1 \<le> stack_size chunks"
    by (cases chunks) (auto simp: chunks1_def stack_size_def)
  have le3: "stack_size (snd r) \<le> stack_size chunks2"
  proof (cases chunks2)
    case Nil then show ?thesis by (simp add: r_def)
  next
    case (Cons c rest)
    show ?thesis
    proof (cases "int (length c) > width")
      case True
      then have "r = handle_long_word c rest cl n width" by (simp add: r_def Cons)
      then show ?thesis using handle_long_word_size [of c rest cl n width "fst r" "snd r"] Cons
        by simp
    next
      case False then show ?thesis by (simp add: r_def Cons)
    qed
  qed
  have le2: "stack_size chunks2 \<le> stack_size chunks1"
    by (simp add: ext(1) stack_size_def)
  show ?thesis
  proof (cases "chunks1 = chunks \<and> cl = []")
    case False
    then consider "chunks1 \<noteq> chunks" | "cl \<noteq> []" by blast
    then have "stack_size chunks2 < stack_size chunks"
    proof cases
      case 1
      then have "stack_size chunks1 < stack_size chunks"
        by (cases chunks) (auto simp: chunks1_def stack_size_def split: if_splits)
      with le2 show ?thesis by simp
    next
      case 2
      then have "stack_size chunks2 < stack_size chunks1"
        by (cases cl) (auto simp: ext(1) stack_size_def)
      with le1 show ?thesis by simp
    qed
    with le3 res show ?thesis by simp
  next
    case True
    then have c2: "chunks2 = chunks" "n = 0" using ext by auto
    then obtain c rest where Cons: "chunks2 = c # rest" using assms(2) by (cases chunks2) auto
    from fit_stuck [of width "[]" 0 chunks1 cl n c rest] f Cons c2
    have long: "width < int (length c)" by simp
    then have "r = handle_long_word c rest cl 0 width" by (simp add: r_def Cons c2)
    from handle_long_word_progress [of c rest cl width "fst r" "snd r"] this assms(1) long
    have "stack_size (snd r) < stack_size (c # rest)" by simp
    with res Cons c2 show ?thesis by simp
  qed
qed

text \<open>
  \<^verbatim>\<open>_wrap_chunks\<close>: the width is tested once, before the loop, and never changes in it (the
  indents are empty, so each line's \<^verbatim>\<open>width\<close> is \<^verbatim>\<open>self.width\<close>); the recursion below
  tests it at each pass, which gives the same result and lets every pass rely on a
  positive width: a pass then shortens the stack. \<open>lines\<close> is the list built so far.
\<close>

function wrap_chunks_from :: "int \<Rightarrow> string list \<Rightarrow> string list \<Rightarrow> exn + string list" where
  "wrap_chunks_from width lines chunks =
     (if width \<le> 0 then Inl (ValueError_invalid_width width)
      else if chunks = [] then Inr lines
      else (case wrap_line width (lines \<noteq> []) chunks of
              (cur_line, chunks') \<Rightarrow>
                wrap_chunks_from width
                  (if cur_line \<noteq> [] then lines @ [concat cur_line] else lines) chunks'))"
  by pat_completeness auto
termination
proof (relation "measure (\<lambda>(width, lines, chunks). stack_size chunks)", goal_cases)
  case 1
  show ?case by simp
next
  case (2 width lines chunks cur_line chunks')
  from 2(1) have "0 < width"
    by simp
  from wrap_line_decreases [OF this 2(2) 2(3) [symmetric]] show ?case
    by simp
qed

declare wrap_chunks_from.simps [simp del]

definition wrap_chunks :: "int \<Rightarrow> string list \<Rightarrow> exn + string list" where
  "wrap_chunks width chunks = wrap_chunks_from width [] chunks"

text \<open>\<^verbatim>\<open>textwrap.wrap(text, width)\<close>.\<close>

definition wrap :: "string \<Rightarrow> int \<Rightarrow> exn + string list" where
  "wrap text width = wrap_chunks width (split_chunks text)"

section \<open>\<^verbatim>\<open>uptane_banners.py\<close>\<close>

text \<open>The colour escape sequences.\<close>

definition RED :: string where "RED = CHR 0x1B # ''[31m''"
definition GREEN :: string where "GREEN = CHR 0x1B # ''[32m''"
definition YELLOW :: string where "YELLOW = CHR 0x1B # ''[33m''"
definition BLACK_BG :: string where "BLACK_BG = CHR 0x1B # ''[40m''"
definition BLUE_BG :: string where "BLUE_BG = CHR 0x1B # ''[44m''"
definition WHITE_BG :: string where "WHITE_BG = CHR 0x1B # ''[107m''"
definition GRAY_BG :: string where "GRAY_BG = CHR 0x1B # ''[100m''"
definition RESET_COLOR :: string where "RESET_COLOR = CHR 0x1B # ''[0m''"

text \<open>
  \<^verbatim>\<open>max(banner_array, key=len)\<close>: the first of the longest lines; of an empty list, a
  \<^verbatim>\<open>ValueError\<close>.
\<close>

fun max_by_len :: "string list \<Rightarrow> exn + string" where
  "max_by_len [] = Inl ValueError_max_empty"
| "max_by_len (x # xs) =
     Inr (foldl (\<lambda>best y. if length best < length y then y else best) x xs)"

text \<open>\<^verbatim>\<open>banner_width = len(max(banner_array, key=len))\<close>.\<close>

definition banner_width :: "string list \<Rightarrow> exn + int" where
  "banner_width banner_array =
     (case max_by_len banner_array of Inl e \<Rightarrow> Inl e | Inr longest \<Rightarrow> Inr (int (length longest)))"

text \<open>
  \<^verbatim>\<open>left_fill\<close>, once the width is known not to exceed the columns.
  \<^verbatim>\<open>int((cols - banner_width) / 2)\<close> is taken where \<^verbatim>\<open>cols - banner_width\<close> is positive:
  the floor of the half, whether \<^verbatim>\<open>/\<close> is the integer division of Python 2 or the true
  division of Python 3, truncated by \<^verbatim>\<open>int\<close>.
\<close>

definition left_fill_of :: "int \<Rightarrow> int \<Rightarrow> int" where
  "left_fill_of cols width = (if width = cols then 0 else (cols - width) div 2)"

text \<open>The line of the banner as padded, and as printed (the body of the first loop).\<close>

definition padded :: "int \<Rightarrow> int \<Rightarrow> string \<Rightarrow> string" where
  "padded cols left_fill line =
     (let right_fill = cols - left_fill - int (length line)
      in spaces left_fill @ line @ spaces right_fill)"

definition code_of :: "string option \<Rightarrow> string" where
  "code_of a = (case a of None \<Rightarrow> [] | Some s \<Rightarrow> s)"

definition banner_line :: "int \<Rightarrow> int \<Rightarrow> string option \<Rightarrow> string option \<Rightarrow> string \<Rightarrow> string" where
  "banner_line cols left_fill color color_bg line =
     (let output = padded cols left_fill line;
          output = (if truthy color then code_of color @ output else output);
          output = (if truthy color_bg then code_of color_bg @ output else output)
      in if truthy color \<or> truthy color_bg then output @ RESET_COLOR else output)"

text \<open>The caption as a list of lines: a string is split at its newlines.\<close>

definition text_lines :: "caption \<Rightarrow> string list" where
  "text_lines t =
     (case t of NoText \<Rightarrow> [] | TextList ls \<Rightarrow> ls | TextStr s \<Rightarrow> split_str newline s)"

text \<open>
  \<^verbatim>\<open>for line in text: text_array += textwrap.wrap(line, cols - 2 * margin_len)\<close>; the first
  line whose wrapping raises ends the loop.
\<close>

fun wrap_lines :: "int \<Rightarrow> string list \<Rightarrow> string list \<Rightarrow> exn + string list" where
  "wrap_lines width text_array [] = Inr text_array"
| "wrap_lines width text_array (line # text) =
     (case wrap line width of
        Inl e \<Rightarrow> Inl e
      | Inr ls \<Rightarrow> wrap_lines width (text_array @ ls) text)"

definition margin_len :: int where
  "margin_len = 10"

text \<open>
  \<^verbatim>\<open>"{output:^{width}}"\<close>: centred in \<open>width\<close> columns, the odd space on the right; a string
  that is already as long is left as it is.
\<close>

definition centred :: "string \<Rightarrow> int \<Rightarrow> string" where
  "centred output width =
     (let pad = width - int (length output)
      in if pad \<le> 0 then output else spaces (pad div 2) @ output @ spaces (pad - pad div 2))"

text \<open>A caption line as printed (the body of the last loop over \<^verbatim>\<open>text_array\<close>).\<close>

definition caption_line :: "int \<Rightarrow> string option \<Rightarrow> string \<Rightarrow> string" where
  "caption_line cols color_bg output =
     (let output_width = cols - 2 * margin_len;
          margin = spaces margin_len;
          margin = (if truthy color_bg then code_of color_bg @ margin @ RESET_COLOR else margin)
      in margin @ centred output output_width @ margin)"

text \<open>
  The block \<^verbatim>\<open>if text: ...\<close>: the wrapped lines \<^verbatim>\<open>text_array\<close>, or the exception raised,
  with what the block prints. \<open>n_banner\<close> is \<^verbatim>\<open>len(banner_array)\<close>.
\<close>

definition caption_block ::
  "int \<Rightarrow> int \<Rightarrow> int \<Rightarrow> string option \<Rightarrow> caption \<Rightarrow> (exn + string list) \<times> effect list" where
  "caption_block rows cols n_banner color_bg text =
     (if caption_truthy text then
        (case wrap_lines (cols - 2 * margin_len) [] (text_lines text) of
           Inl e \<Rightarrow> (Inl e, [])
         | Inr text_array \<Rightarrow>
             if n_banner + int (length text_array) > rows
             then (Inl (Exception ''Text exceeds terminal height.''), [])
             else (Inr text_array, map (\<lambda>output. Print (caption_line cols color_bg output)) text_array))
      else (Inr [], []))"

text \<open>
  \<^verbatim>\<open>for i in range(rows - content - 1): print(color_bg + cols * " " + RESET_COLOR)\<close>, under
  \<^verbatim>\<open>if color_bg\<close>.
\<close>

definition fill_line :: "int \<Rightarrow> string option \<Rightarrow> string" where
  "fill_line cols color_bg = code_of color_bg @ spaces cols @ RESET_COLOR"

definition fill_bottom :: "int \<Rightarrow> int \<Rightarrow> string option \<Rightarrow> int \<Rightarrow> effect list" where
  "fill_bottom rows cols color_bg content =
     (if truthy color_bg
      then replicate (nat (rows - content - 1)) (Print (fill_line cols color_bg))
      else [])"

text \<open>
  \<^verbatim>\<open>if show_for: time.sleep(show_for); clear_screen()\<close>. The duration is a whole number of
  seconds here; \<^verbatim>\<open>time.sleep\<close> refuses a negative one.
\<close>

definition hold :: "int option \<Rightarrow> (exn + unit) \<times> effect list" where
  "hold show_for =
     (case show_for of
        None \<Rightarrow> (Inr (), [])
      | Some n \<Rightarrow>
          if n = 0 then (Inr (), [])
          else if n < 0 then (Inl ValueError_sleep_negative, [])
          else (Inr (), [Sleep n, Clear]))"

text \<open>
  \<^verbatim>\<open>print_banner(banner_array, show_for, color, color_bg, text)\<close> on a terminal whose
  \<^verbatim>\<open>get_screen_size()\<close> is \<open>(rows, cols)\<close>.
\<close>

definition print_banner ::
  "int \<times> int \<Rightarrow> string list \<Rightarrow> int option \<Rightarrow> string option \<Rightarrow> string option \<Rightarrow> caption
   \<Rightarrow> (exn + unit) \<times> effect list" where
  "print_banner screen_size banner_array show_for color color_bg text =
     (case screen_size of
        (rows, cols) \<Rightarrow>
          (case banner_width banner_array of
             Inl e \<Rightarrow> (Inl e, [])
           | Inr width \<Rightarrow>
               if width > cols
               then (Inl (Exception ''Banner width exceeds terminal width.''), [])
               else
                 (let left_fill = left_fill_of cols width;
                      drawn = Clear #
                        map (\<lambda>line. Print (banner_line cols left_fill color color_bg line))
                          banner_array
                  in case caption_block rows cols (int (length banner_array)) color_bg text of
                       (Inl e, printed) \<Rightarrow> (Inl e, drawn @ printed)
                     | (Inr text_array, printed) \<Rightarrow>
                         (let filled = fill_bottom rows cols color_bg
                                (int (length banner_array) + int (length text_array))
                          in case hold show_for of
                               (result, held) \<Rightarrow> (result, drawn @ printed @ filled @ held)))))"

section \<open>\<^verbatim>\<open>uptane_sounds.py\<close>\<close>

text \<open>
  What \<^verbatim>\<open>play\<close> meets of the operating system: the variable \<^verbatim>\<open>PATH\<close> (if set), which paths
  are regular files (\<^verbatim>\<open>os.path.isfile\<close>), which may be executed (\<^verbatim>\<open>os.access\<close> with
  \<^verbatim>\<open>os.X_OK\<close>), and for which command lines \<^verbatim>\<open>Popen\<close> fails to start the program. The last
  is the system's own answer: it looks the program up itself, in the entries of \<^verbatim>\<open>PATH\<close> as
  they are written, whereas \<^verbatim>\<open>_on_path\<close> strips the quotes of an entry first.
\<close>

record os_state =
  environ_PATH :: "string option"
  isfile :: "string \<Rightarrow> bool"
  access_X_OK :: "string \<Rightarrow> bool"
  popen_fails :: "string list \<Rightarrow> bool"

text \<open>\<^verbatim>\<open>os.pathsep\<close> and \<^verbatim>\<open>os.path.join\<close> of two parts, as on the POSIX systems of both players.\<close>

definition pathsep :: char where
  "pathsep = CHR '':''"

definition path_join :: "string \<Rightarrow> string \<Rightarrow> string" where
  "path_join a b =
     (if b \<noteq> [] \<and> hd b = CHR ''/'' then b
      else if a = [] \<or> last a = CHR ''/'' then a @ b
      else a @ ''/'' @ b)"

text \<open>\<^verbatim>\<open>path.strip('"')\<close>.\<close>

definition strip_quotes :: "string \<Rightarrow> string" where
  "strip_quotes s =
     rev (dropWhile (\<lambda>c. c = CHR 0x22) (rev (dropWhile (\<lambda>c. c = CHR 0x22) s)))"

text \<open>The loop of \<^verbatim>\<open>_on_path\<close> over the directories of the search path.\<close>

fun on_path_loop :: "os_state \<Rightarrow> string \<Rightarrow> string list \<Rightarrow> bool" where
  "on_path_loop os cmd [] = False"
| "on_path_loop os cmd (path # paths) =
     (let cmd_path = path_join (strip_quotes path) cmd
      in if isfile os cmd_path \<and> access_X_OK os cmd_path then True
         else on_path_loop os cmd paths)"

definition on_path :: "os_state \<Rightarrow> string \<Rightarrow> exn + bool" where
  "on_path os cmd =
     (case environ_PATH os of
        None \<Rightarrow> Inl (KeyError ''PATH'')
      | Some p \<Rightarrow> Inr (on_path_loop os cmd (split_str pathsep p)))"

text \<open>
  What \<^verbatim>\<open>play\<close> does once the player is chosen: \<^verbatim>\<open>proc = Popen([player, sound_path], ...)\<close>,
  which raises and leaves no child when the program cannot be started, and then
  \<^verbatim>\<open>proc.wait()\<close> if \<^verbatim>\<open>blocking\<close>.
\<close>

definition spawn :: "os_state \<Rightarrow> string \<Rightarrow> string \<Rightarrow> bool \<Rightarrow> (exn + unit) \<times> effect list" where
  "spawn os player sound_path blocking =
     (if popen_fails os [player, sound_path] then (Inl OSError, [])
      else (Inr (), Popen [player, sound_path] # (if blocking then [Wait] else [])))"

definition play :: "os_state \<Rightarrow> string \<Rightarrow> bool \<Rightarrow> (exn + unit) \<times> effect list" where
  "play os sound_path blocking =
     (if \<not> isfile os sound_path
      then (Inr (), [Print (''Sound '' @ [CHR 0x27] @ sound_path @ [CHR 0x27] @ '' not found.'')])
      else
        (case on_path os ''omxplayer'' of
           Inl e \<Rightarrow> (Inl e, [])
         | Inr True \<Rightarrow> spawn os ''omxplayer'' sound_path blocking
         | Inr False \<Rightarrow>
             (case on_path os ''afplay'' of
                Inl e \<Rightarrow> (Inl e, [])
              | Inr True \<Rightarrow> spawn os ''afplay'' sound_path blocking
              | Inr False \<Rightarrow> (Inr (), [Print ''No player found on this platform.'']))))"

text \<open>
  An example of such a state: the search path is \<^verbatim>\<open>/usr/bin:/bin\<close>, the player
  \<^verbatim>\<open>/usr/bin/afplay\<close> is an executable file that the system can start, and
  \<^verbatim>\<open>sounds/tada.wav\<close> is the one sound file. In the second state the same process runs with
  no variable \<^verbatim>\<open>PATH\<close> in its environment. In the third the one entry of \<^verbatim>\<open>PATH\<close> is written
  in quotes, \<^verbatim>\<open>"/usr/bin"\<close>, so that the system finds no program in it.
\<close>

definition os_mac :: os_state where
  "os_mac = \<lparr>environ_PATH = Some ''/usr/bin:/bin'',
             isfile = (\<lambda>f. f = ''/usr/bin/afplay'' \<or> f = ''sounds/tada.wav''),
             access_X_OK = (\<lambda>f. f = ''/usr/bin/afplay''),
             popen_fails = (\<lambda>argv. False)\<rparr>"

definition os_no_PATH :: os_state where
  "os_no_PATH = os_mac\<lparr>environ_PATH := None\<rparr>"

definition os_quoted_PATH :: os_state where
  "os_quoted_PATH =
     os_mac\<lparr>environ_PATH := Some (CHR 0x22 # ''/usr/bin'' @ [CHR 0x22]),
            popen_fails := (\<lambda>argv. True)\<rparr>"

section \<open>The width of a banner\<close>

lemma foldl_longest:
  "length (foldl (\<lambda>best y. if length best < length y then y else best) x xs)
     \<in> length ` set (x # xs) \<and>
   (\<forall>l \<in> set (x # xs).
      length l \<le> length (foldl (\<lambda>best y. if length best < length y then y else best) x xs))"
proof (induction xs arbitrary: x)
  case Nil
  show ?case by simp
next
  case (Cons y ys)
  show ?case
  proof (cases "length x < length y")
    case True
    with Cons.IH [of y] show ?thesis by auto
  next
    case False
    with Cons.IH [of x] show ?thesis by auto
  qed
qed

lemma banner_width_Max:
  assumes "banner_array \<noteq> []"
  shows "banner_width banner_array = Inr (int (Max (length ` set banner_array)))"
proof -
  obtain x xs where b: "banner_array = x # xs"
    using assms by (cases banner_array) auto
  let ?m = "foldl (\<lambda>best y. if length best < length y then y else best) x xs"
  have "Max (length ` set (x # xs)) = length ?m"
    using foldl_longest [of x xs] by (intro Max_eqI) auto
  then show ?thesis
    by (simp add: banner_width_def b)
qed

section \<open>A banner wider than the terminal\<close>

text \<open>
  Claim C3. A banner whose width (the length of its longest line) exceeds the column count
  makes \<^verbatim>\<open>print_banner\<close> raise \<^verbatim>\<open>Exception("Banner width exceeds terminal width.")\<close> with no
  effect at all before the raise: the screen is not cleared and nothing is printed,
  whatever the rows, the colours, the caption and the hold.
\<close>

theorem print_banner_too_wide:
  assumes "banner_array \<noteq> []" and "cols < int (Max (length ` set banner_array))"
  shows "print_banner (rows, cols) banner_array show_for color color_bg text =
           (Inl (Exception ''Banner width exceeds terminal width.''), [])"
  using assms by (simp add: print_banner_def banner_width_Max)

theorem print_banner_too_wide_witness:
  "[''#'', replicate 41 CHR ''#''] \<noteq> [] \<and>
   40 < int (Max (length ` set [''#'', replicate 41 CHR ''#''])) \<and>
   print_banner (10, 40) [''#'', replicate 41 CHR ''#''] (Some 3) (Some RED) (Some BLACK_BG)
       (TextStr ''caption'') =
     (Inl (Exception ''Banner width exceeds terminal width.''), [])"
  using print_banner_too_wide [of "[''#'', replicate 41 CHR ''#'']" 40 10 "Some 3" "Some RED"
      "Some BLACK_BG" "TextStr ''caption''"]
  by simp

section \<open>Centring the banner\<close>

lemma banner_line_eq:
  "banner_line cols left_fill color color_bg line =
     (if truthy color_bg then code_of color_bg else []) @
     (if truthy color then code_of color else []) @
     padded cols left_fill line @
     (if truthy color \<or> truthy color_bg then RESET_COLOR else [])"
  by (simp add: banner_line_def Let_def)

lemma left_fill_of_bounds:
  assumes "0 \<le> width" and "width \<le> cols"
  shows "0 \<le> left_fill_of cols width" and "left_fill_of cols width + width \<le> cols"
  using assms by (auto simp: left_fill_of_def)

lemma line_le_Max:
  assumes "line \<in> set banner_array"
  shows "length line \<le> Max (length ` set banner_array)"
  using assms by (intro Max_ge) auto

lemma print_banner_drawn:
  assumes "banner_array \<noteq> []" and "int (Max (length ` set banner_array)) \<le> cols"
  shows "print_banner (rows, cols) banner_array show_for color color_bg text =
     (case caption_block rows cols (int (length banner_array)) color_bg text of
        (Inl e, printed) \<Rightarrow>
          (Inl e,
           (Clear # map (\<lambda>line. Print (banner_line cols
                (left_fill_of cols (int (Max (length ` set banner_array)))) color color_bg line))
              banner_array) @ printed)
      | (Inr text_array, printed) \<Rightarrow>
          (fst (hold show_for),
           (Clear # map (\<lambda>line. Print (banner_line cols
                (left_fill_of cols (int (Max (length ` set banner_array)))) color color_bg line))
              banner_array) @ printed @
           fill_bottom rows cols color_bg (int (length banner_array) + int (length text_array)) @
           snd (hold show_for)))"
  using assms
  by (simp add: print_banner_def banner_width_Max Let_def split: prod.splits sum.splits)

lemma print_banner_starts:
  assumes "banner_array \<noteq> []" and "int (Max (length ` set banner_array)) \<le> cols"
  shows "\<exists>rest. snd (print_banner (rows, cols) banner_array show_for color color_bg text) =
     Clear # map (\<lambda>line. Print (banner_line cols
                (left_fill_of cols (int (Max (length ` set banner_array)))) color color_bg line))
              banner_array @ rest"
  unfolding print_banner_drawn [OF assms]
  by (auto split: prod.splits sum.splits)

text \<open>
  Claim C1. For a banner that is not empty and whose width \<open>W\<close> (the length of its longest
  line) is at most the column count \<open>C\<close>, \<^verbatim>\<open>print_banner\<close> clears the screen and then
  prints, for each line of the banner in order, the line between \<open>left_fill\<close> spaces and
  \<open>C - left_fill - len(line)\<close> spaces (inside the colour codes, if any), where
  \<open>left_fill\<close> is \<open>0\<close> when \<open>W = C\<close> and the floor of \<open>(C - W) / 2\<close> otherwise. Neither
  count is negative, so the padded line has exactly \<open>C\<close> characters: left padding, line
  and right padding add up to the columns.
\<close>

theorem print_banner_pads_to_columns:
  assumes "banner_array \<noteq> []" and "int (Max (length ` set banner_array)) \<le> cols"
  shows "\<exists>left_fill rest.
     left_fill = (if int (Max (length ` set banner_array)) = cols then 0
                  else (cols - int (Max (length ` set banner_array))) div 2) \<and>
     snd (print_banner (rows, cols) banner_array show_for color color_bg text) =
       Clear # map (\<lambda>line. Print (
           (if truthy color_bg then code_of color_bg else []) @
           (if truthy color then code_of color else []) @
           (replicate (nat left_fill) CHR '' '' @ line @
            replicate (nat (cols - left_fill - int (length line))) CHR '' '') @
           (if truthy color \<or> truthy color_bg then RESET_COLOR else []))) banner_array @ rest \<and>
     (\<forall>line \<in> set banner_array.
        0 \<le> left_fill \<and> 0 \<le> cols - left_fill - int (length line) \<and>
        int (length (replicate (nat left_fill) CHR '' '' @ line @
            replicate (nat (cols - left_fill - int (length line))) CHR '' '')) = cols)"
proof -
  let ?W = "int (Max (length ` set banner_array))"
  let ?lf = "left_fill_of cols ?W"
  have W: "0 \<le> ?W" by simp
  note lf = left_fill_of_bounds [OF W assms(2)]
  have fits: "0 \<le> cols - ?lf - int (length line)" if "line \<in> set banner_array" for line
    using line_le_Max [OF that] lf(2) by linarith
  obtain rest where
    "snd (print_banner (rows, cols) banner_array show_for color color_bg text) =
     Clear # map (\<lambda>line. Print (banner_line cols ?lf color color_bg line)) banner_array @ rest"
    using print_banner_starts [OF assms] by blast
  then have "snd (print_banner (rows, cols) banner_array show_for color color_bg text) =
       Clear # map (\<lambda>line. Print (
           (if truthy color_bg then code_of color_bg else []) @
           (if truthy color then code_of color else []) @
           (replicate (nat ?lf) CHR '' '' @ line @
            replicate (nat (cols - ?lf - int (length line))) CHR '' '') @
           (if truthy color \<or> truthy color_bg then RESET_COLOR else []))) banner_array @ rest"
    by (simp add: banner_line_eq padded_def spaces_def Let_def)
  moreover have "\<forall>line \<in> set banner_array.
        0 \<le> ?lf \<and> 0 \<le> cols - ?lf - int (length line) \<and>
        int (length (replicate (nat ?lf) CHR '' '' @ line @
            replicate (nat (cols - ?lf - int (length line))) CHR '' '')) = cols"
    using lf(1) fits by auto
  moreover have "?lf = (if ?W = cols then 0 else (cols - ?W) div 2)"
    by (simp add: left_fill_of_def)
  ultimately show ?thesis
    by (intro exI [of _ ?lf] exI [of _ rest] conjI) assumption+
qed

theorem print_banner_pads_to_columns_witness:
  "[''####'', ''#  #'', ''####''] \<noteq> [] \<and>
   int (Max (length ` set [''####'', ''#  #'', ''####''])) \<le> 40 \<and>
   (\<exists>rest. snd (print_banner (10, 40) [''####'', ''#  #'', ''####''] None None None NoText) =
      [Clear,
       Print (replicate 18 CHR '' '' @ ''####'' @ replicate 18 CHR '' ''),
       Print (replicate 18 CHR '' '' @ ''#  #'' @ replicate 18 CHR '' ''),
       Print (replicate 18 CHR '' '' @ ''####'' @ replicate 18 CHR '' '')] @ rest) \<and>
   length (replicate 18 CHR '' '' @ ''####'' @ replicate 18 CHR '' '') = 40"
  using print_banner_pads_to_columns [of "[''####'', ''#  #'', ''####'']" 40 10 None None None NoText]
  by (simp add: truthy_def)

section \<open>Lines of \<^verbatim>\<open>textwrap.wrap\<close> fit the width\<close>

lemma length_concat_butlast: "length (concat (butlast xs)) \<le> length (concat xs)"
  by (induction xs) auto

lemma handle_long_word_fits:
  assumes "handle_long_word c r cl n w = (cl2, ch3)" and "0 < w" and "n \<le> w"
    and "int (length (concat cl)) = n"
  shows "int (length (concat cl2)) \<le> w"
proof -
  let ?h = "rfind hyphen c (w - n)"
  define e where "e = (if int (length c) > w - n \<and> ?h > 0 \<and>
                list_ex (\<lambda>x. x \<noteq> hyphen) (take (slice_end ?h c) c)
             then ?h + 1 else w - n)"
  have "?h < int (slice_end (w - n) c)" by (rule rfind_lt)
  also have "\<dots> \<le> w - n" using assms(3) by (auto simp: slice_end_def)
  finally have e: "0 \<le> e \<or> e = w - n" "e \<le> w - n" by (auto simp: e_def)
  with assms(3) have "int (slice_end e c) \<le> w - n" by (auto simp: slice_end_def)
  moreover have "cl2 = cl @ [take (slice_end e c) c]"
    using assms(1,2) by (simp add: handle_long_word_def Let_def e_def)
  ultimately show ?thesis using assms(4) by simp
qed

lemma wrap_line_fits:
  assumes "0 < width" and "wrap_line width started chunks = (cur_line, chunks')"
  shows "int (length (concat cur_line)) \<le> width"
proof -
  define chunks1 where "chunks1 = (case chunks of [] \<Rightarrow> []
             | chunk # rest \<Rightarrow> if blank chunk \<and> started then rest else chunks)"
  obtain cl n chunks2 where f: "fit width [] 0 chunks1 = (cl, n, chunks2)"
    by (cases "fit width [] 0 chunks1") auto
  define r where "r = (case chunks2 of
                      [] \<Rightarrow> (cl, chunks2)
                    | chunk # rest \<Rightarrow>
                        if int (length chunk) > width
                        then handle_long_word chunk rest cl n width
                        else (cl, chunks2))"
  have "wrap_line width started chunks =
      (if fst r \<noteq> [] \<and> blank (last (fst r)) then (butlast (fst r), snd r) else (fst r, snd r))"
    unfolding wrap_line_def chunks1_def [symmetric] Let_def f prod.case r_def [symmetric]
    by (cases r) simp
  with assms(2)
  have res: "cur_line = (if fst r \<noteq> [] \<and> blank (last (fst r)) then butlast (fst r) else fst r)"
    by (auto split: if_splits)
  from fit_extends [OF f] have n: "int (length (concat cl)) = n" by auto
  from fit_bound [OF f] assms(1) have nw: "n \<le> width" by simp
  have "int (length (concat (fst r))) \<le> width"
  proof (cases chunks2)
    case Nil then show ?thesis using n nw by (simp add: r_def)
  next
    case (Cons c rest)
    show ?thesis
    proof (cases "int (length c) > width")
      case True
      then have "handle_long_word c rest cl n width = (fst r, snd r)" by (simp add: r_def Cons)
      from handle_long_word_fits [OF this assms(1) nw n] show ?thesis .
    next
      case False then show ?thesis using n nw by (simp add: r_def Cons)
    qed
  qed
  moreover have "length (concat (butlast (fst r))) \<le> length (concat (fst r))"
    by (rule length_concat_butlast)
  ultimately show ?thesis unfolding res by auto
qed

lemma wrap_chunks_from_invalid:
  "width \<le> 0 \<Longrightarrow> wrap_chunks_from width lines chunks = Inl (ValueError_invalid_width width)"
  by (simp add: wrap_chunks_from.simps)

lemma wrap_chunks_from_fits:
  assumes "0 < width" and "\<forall>l \<in> set lines. int (length l) \<le> width"
  shows "\<exists>r. wrap_chunks_from width lines chunks = Inr r \<and> (\<forall>l \<in> set r. int (length l) \<le> width)"
  using assms
proof (induction width lines chunks rule: wrap_chunks_from.induct)
  case (1 width lines chunks)
  show ?case
  proof (cases "chunks = []")
    case True
    with 1 show ?thesis by (simp add: wrap_chunks_from.simps)
  next
    case False
    obtain cur_line chunks' where wl: "wrap_line width (lines \<noteq> []) chunks = (cur_line, chunks')"
      by (cases "wrap_line width (lines \<noteq> []) chunks") auto
    let ?lines = "if cur_line \<noteq> [] then lines @ [concat cur_line] else lines"
    have "\<forall>l \<in> set ?lines. int (length l) \<le> width"
      using wrap_line_fits [OF "1.prems"(1) wl] "1.prems"(2) by auto
    with "1.IH" [OF _ False wl [symmetric] "1.prems"(1)] "1.prems"(1)
    have "\<exists>r. wrap_chunks_from width ?lines chunks' = Inr r \<and> (\<forall>l \<in> set r. int (length l) \<le> width)"
      by simp
    moreover have "wrap_chunks_from width lines chunks = wrap_chunks_from width ?lines chunks'"
      using False "1.prems"(1) wl by (subst wrap_chunks_from.simps) simp
    ultimately show ?thesis by simp
  qed
qed

lemma wrap_invalid: "width \<le> 0 \<Longrightarrow> wrap text width = Inl (ValueError_invalid_width width)"
  by (simp add: wrap_def wrap_chunks_def wrap_chunks_from_invalid)

lemma wrap_fits:
  assumes "0 < width"
  shows "\<exists>r. wrap text width = Inr r \<and> (\<forall>l \<in> set r. int (length l) \<le> width)"
  using wrap_chunks_from_fits [OF assms, of "[]" "split_chunks text"]
  by (simp add: wrap_def wrap_chunks_def)

lemma wrap_lines_fits:
  assumes "0 < width" and "\<forall>l \<in> set text_array. int (length l) \<le> width"
  shows "\<exists>r. wrap_lines width text_array text = Inr r \<and> (\<forall>l \<in> set r. int (length l) \<le> width)"
  using assms(2)
proof (induction "text" arbitrary: text_array)
  case Nil
  then show ?case by simp
next
  case (Cons line rest)
  from wrap_fits [OF assms(1), of line] obtain ls where
    ls: "wrap line width = Inr ls" "\<forall>l \<in> set ls. int (length l) \<le> width" by blast
  with Cons.prems have "\<forall>l \<in> set (text_array @ ls). int (length l) \<le> width" by auto
  from Cons.IH [OF this] ls(1) show ?case by simp
qed

lemma wrap_lines_invalid:
  assumes "width \<le> 0" and "text \<noteq> []"
  shows "wrap_lines width text_array text = Inl (ValueError_invalid_width width)"
  using assms by (cases "text") (simp_all add: wrap_invalid)

section \<open>What \<^verbatim>\<open>print_banner\<close> can raise\<close>

lemma caption_block_error:
  assumes "caption_block rows cols n color_bg t = (Inl e, printed)"
  shows "printed = [] \<and>
    (e = ValueError_invalid_width (cols - 2 * margin_len) \<or> e = Exception ''Text exceeds terminal height.'')"
proof (cases "cols - 2 * margin_len \<le> 0")
  case True
  show ?thesis
  proof (cases "text_lines t = []")
    case True
    with assms show ?thesis
      by (auto simp: caption_block_def split: if_splits sum.splits)
  next
    case False
    from wrap_lines_invalid [OF True False] assms show ?thesis
      by (auto simp: caption_block_def split: if_splits sum.splits)
  qed
next
  case False
  then have "0 < cols - 2 * margin_len" by simp
  from wrap_lines_fits [OF this, of "[]" "text_lines t"] assms show ?thesis
    by (auto simp: caption_block_def split: if_splits sum.splits)
qed

lemma hold_result: "fst (hold show_for) = Inr () \<or> fst (hold show_for) = Inl ValueError_sleep_negative"
  by (auto simp: hold_def split: option.splits)

text \<open>
  Claim C9. For the empty banner list \<^verbatim>\<open>print_banner\<close> fails with the \<^verbatim>\<open>ValueError\<close> that
  \<^verbatim>\<open>max()\<close> raises on an empty sequence, which is neither of the two exceptions the function
  raises itself, and it fails before any effect: the screen is not cleared, nothing is
  printed. For a banner list that is not empty the width is defined (it is the length of
  the longest line) and \<^verbatim>\<open>print_banner\<close> never ends with that \<^verbatim>\<open>ValueError\<close>.
\<close>

theorem print_banner_empty_banner:
  "print_banner (rows, cols) [] show_for color color_bg t = (Inl ValueError_max_empty, []) \<and>
   (\<forall>msg. fst (print_banner (rows, cols) [] show_for color color_bg t) \<noteq> Inl (Exception msg)) \<and>
   (banner_array \<noteq> [] \<longrightarrow>
      banner_width banner_array = Inr (int (Max (length ` set banner_array))) \<and>
      fst (print_banner (rows, cols) banner_array show_for color color_bg t) \<noteq> Inl ValueError_max_empty)"
proof (intro conjI impI allI)
  show e: "print_banner (rows, cols) [] show_for color color_bg t = (Inl ValueError_max_empty, [])"
    by (simp add: print_banner_def banner_width_def)
  show "fst (print_banner (rows, cols) [] show_for color color_bg t) \<noteq> Inl (Exception msg)" for msg
    by (simp add: e)
next
  assume ne: "banner_array \<noteq> []"
  then show "banner_width banner_array = Inr (int (Max (length ` set banner_array)))"
    by (rule banner_width_Max)
  show "fst (print_banner (rows, cols) banner_array show_for color color_bg t) \<noteq> Inl ValueError_max_empty"
  proof (cases "int (Max (length ` set banner_array)) \<le> cols")
    case False
    then show ?thesis using ne by (simp add: print_banner_def banner_width_Max)
  next
    case True
    obtain r printed where cb: "caption_block rows cols (int (length banner_array)) color_bg t = (r, printed)"
      by (cases "caption_block rows cols (int (length banner_array)) color_bg t") auto
    show ?thesis
    proof (cases r)
      case (Inl e)
      with caption_block_error [of rows cols "int (length banner_array)" color_bg t e printed] cb
      show ?thesis unfolding print_banner_drawn [OF ne True] by auto
    next
      case (Inr ta)
      with cb hold_result [of show_for] show ?thesis
        unfolding print_banner_drawn [OF ne True] by auto
    qed
  qed
qed

theorem print_banner_empty_banner_witness:
  "print_banner (10, 40) [] None None None NoText = (Inl ValueError_max_empty, []) \<and>
   [''ab'', ''abcd''] \<noteq> [] \<and>
   banner_width [''ab'', ''abcd''] = Inr 4 \<and>
   fst (print_banner (10, 40) [''ab'', ''abcd''] None None None NoText) \<noteq> Inl ValueError_max_empty"
  using print_banner_empty_banner [of 10 40 None None None NoText "[''ab'', ''abcd'']"]
  by simp

section \<open>The order of the colour codes\<close>

text \<open>
  Claim C4, as stated: with a foreground and a background colour set, each emitted banner
  line is the foreground code, then the background code, then the padded line, then the
  reset code. The code prepends the foreground code first and the background code after
  it, so the background code comes first in the line. On a terminal of 2 rows and 5
  columns, the banner \<^verbatim>\<open>["#"]\<close> in red on black is printed as the black-background code, the
  red code, the padded line and the reset code, which is not the line the claim describes.
\<close>

theorem print_banner_colour_order_counterexample:
  "snd (print_banner (2, 5) [''#''] None (Some RED) (Some BLACK_BG) NoText) =
     [Clear, Print (BLACK_BG @ RED @ ''  #  '' @ RESET_COLOR)] \<and>
   BLACK_BG @ RED @ ''  #  '' @ RESET_COLOR \<noteq> RED @ BLACK_BG @ ''  #  '' @ RESET_COLOR"
  by (simp add: print_banner_def banner_width_def left_fill_of_def banner_line_def padded_def
      spaces_def truthy_def code_of_def caption_block_def caption_truthy_def fill_bottom_def
      hold_def RED_def BLACK_BG_def RESET_COLOR_def eval_nat_numeral)

text \<open>
  Claim C4, amended. With a foreground colour \<open>fg\<close> and a background colour \<open>bg\<close> set (both
  non-empty strings), every banner line emitted by \<^verbatim>\<open>print_banner\<close> is the background code,
  then the foreground code, then the padded line, then one reset code at the end.
\<close>

theorem print_banner_background_code_first:
  assumes "banner_array \<noteq> []" and "int (Max (length ` set banner_array)) \<le> cols"
    and "fg \<noteq> []" and "bg \<noteq> []"
  shows "\<exists>rest. snd (print_banner (rows, cols) banner_array show_for (Some fg) (Some bg) t) =
     Clear # map (\<lambda>line. Print (bg @ fg @
         padded cols (left_fill_of cols (int (Max (length ` set banner_array)))) line @
         RESET_COLOR)) banner_array @ rest"
  using print_banner_starts [OF assms(1,2), of rows show_for "Some fg" "Some bg" t] assms(3,4)
  by (simp add: banner_line_eq truthy_def code_of_def)

theorem print_banner_background_code_first_witness:
  "[''#''] \<noteq> [] \<and> int (Max (length ` set [''#''])) \<le> 5 \<and> RED \<noteq> [] \<and> BLACK_BG \<noteq> [] \<and>
   (\<exists>rest. snd (print_banner (2, 5) [''#''] None (Some RED) (Some BLACK_BG) NoText) =
      [Clear, Print (BLACK_BG @ RED @ ''  #  '' @ RESET_COLOR)] @ rest)"
  using print_banner_background_code_first [of "[''#'']" 5 RED BLACK_BG 2 None NoText]
  by (simp add: RED_def BLACK_BG_def padded_def left_fill_of_def spaces_def eval_nat_numeral)

section \<open>The wrapped caption\<close>



section \<open>A terminal of 20 columns or fewer\<close>

text \<open>
  Claim C10, as stated: on every terminal of at most 20 columns, \<^verbatim>\<open>print_banner\<close> with a
  caption that has a non-empty line fails with the invalid-width error of the wrapping
  step, not with one of its own two exceptions, and after the banner lines have been
  printed. The claim names no condition on the banner: with a banner wider than the
  terminal the function raises its own width exception first, and prints nothing.
\<close>

theorem narrow_terminal_wide_banner_counterexample:
  "print_banner (10, 5) [''abcdefgh''] None None None (TextStr ''x'') =
     (Inl (Exception ''Banner width exceeds terminal width.''), [])"
  by (simp add: print_banner_def banner_width_def)

lemma caption_truthy_lines:
  assumes "\<exists>line \<in> set (text_lines t). line \<noteq> []"
  shows "caption_truthy t" and "text_lines t \<noteq> []"
  using assms by (cases t; auto simp: caption_truthy_def text_lines_def split_str_def)+

text \<open>
  Claim C10, amended. For a banner that is not empty and no wider than the terminal, on a
  terminal of at most 20 columns, \<^verbatim>\<open>print_banner\<close> with a caption that has a non-empty line
  fails with the invalid-width \<^verbatim>\<open>ValueError\<close> of \<^verbatim>\<open>textwrap\<close> (for the width \<open>cols - 20\<close>), and
  when it fails the screen has been cleared and every banner line printed, and nothing
  else.
\<close>

theorem narrow_terminal_caption_invalid_width:
  assumes "banner_array \<noteq> []" and "int (Max (length ` set banner_array)) \<le> cols"
    and "cols \<le> 20" and "\<exists>line \<in> set (text_lines t). line \<noteq> []"
  shows "print_banner (rows, cols) banner_array show_for color color_bg t =
    (Inl (ValueError_invalid_width (cols - 20)),
     Clear # map (\<lambda>line. Print (banner_line cols
         (left_fill_of cols (int (Max (length ` set banner_array)))) color color_bg line))
       banner_array)"
proof -
  have w: "cols - 2 * margin_len \<le> 0" using assms(3) by (simp add: margin_len_def)
  note tr = caption_truthy_lines [OF assms(4)]
  have "caption_block rows cols (int (length banner_array)) color_bg t =
      (Inl (ValueError_invalid_width (cols - 20)), [])"
    using tr(1) wrap_lines_invalid [OF w tr(2)] by (simp add: caption_block_def margin_len_def)
  then show ?thesis
    by (simp add: print_banner_drawn [OF assms(1,2)])
qed

theorem narrow_terminal_caption_invalid_width_witness:
  "[''##''] \<noteq> [] \<and> int (Max (length ` set [''##''])) \<le> 20 \<and> (20::int) \<le> 20 \<and>
   [] \<noteq> ''caption'' \<and>
   print_banner (10, 20) [''##''] None None None (TextStr ''caption'') =
     (Inl (ValueError_invalid_width 0), [Clear, Print (replicate 9 CHR '' '' @ ''##'' @ replicate 9 CHR '' '')])"
  using narrow_terminal_caption_invalid_width [of "[''##'']" 20 "TextStr ''caption''" 10 None None None]
  by (simp add: text_lines_def split_str_def newline_def banner_line_def padded_def spaces_def
      left_fill_of_def truthy_def)

section \<open>A banner and caption taller than the terminal\<close>

text \<open>
  Claim C2, as stated: when the banner lines and the wrapped caption lines together
  exceed the rows, \<^verbatim>\<open>print_banner\<close> raises the height exception before any output of the
  call, the screen not cleared and no banner line printed. In the code the height test
  stands inside the caption block, after \<^verbatim>\<open>clear_screen()\<close> and after the loop that prints
  the banner: on a terminal of 1 row and 30 columns, the banner \<^verbatim>\<open>["#"]\<close> with the caption
  \<^verbatim>\<open>["a", "b"]\<close> raises the exception once the screen is cleared and the banner line
  printed.
\<close>

theorem height_error_after_banner_counterexample:
  "print_banner (1, 30) [''#''] None None None (TextList [''a'', ''b'']) =
     (Inl (Exception ''Text exceeds terminal height.''),
      [Clear, Print (replicate 14 CHR '' '' @ ''#'' @ replicate 15 CHR '' '')])"
  by code_simp

text \<open>
  Claim C2, amended. For a banner that is not empty and no wider than the terminal, and a
  supplied caption whose lines wrap (to \<^verbatim>\<open>text_array\<close>) so that banner lines and wrapped
  caption lines together exceed the rows, \<^verbatim>\<open>print_banner\<close> raises
  \<^verbatim>\<open>Exception("Text exceeds terminal height.")\<close>; by then the screen has been cleared and
  every banner line printed, and nothing else: no caption line, no fill line, no hold.
\<close>

theorem print_banner_too_tall:
  assumes "banner_array \<noteq> []" and "int (Max (length ` set banner_array)) \<le> cols"
    and "caption_truthy t"
    and "wrap_lines (cols - 2 * margin_len) [] (text_lines t) = Inr text_array"
    and "rows < int (length banner_array) + int (length text_array)"
  shows "print_banner (rows, cols) banner_array show_for color color_bg t =
    (Inl (Exception ''Text exceeds terminal height.''),
     Clear # map (\<lambda>line. Print (banner_line cols
         (left_fill_of cols (int (Max (length ` set banner_array)))) color color_bg line))
       banner_array)"
proof -
  have "caption_block rows cols (int (length banner_array)) color_bg t =
      (Inl (Exception ''Text exceeds terminal height.''), [])"
    using assms(3,4,5) by (simp add: caption_block_def)
  then show ?thesis
    by (simp add: print_banner_drawn [OF assms(1,2)])
qed

theorem print_banner_too_tall_witness:
  "[''#''] \<noteq> [] \<and> int (Max (length ` set [''#''])) \<le> 30 \<and>
   caption_truthy (TextList [''a'', ''b'']) \<and>
   wrap_lines (30 - 2 * margin_len) [] (text_lines (TextList [''a'', ''b''])) = Inr [''a'', ''b''] \<and>
   1 < int (length [''#'']) + int (length [''a'', ''b'']) \<and>
   print_banner (1, 30) [''#''] None None None (TextList [''a'', ''b'']) =
     (Inl (Exception ''Text exceeds terminal height.''),
      [Clear, Print (banner_line 30 14 None None ''#'')])"
proof -
  have w: "wrap_lines (30 - 2 * margin_len) [] (text_lines (TextList [''a'', ''b''])) = Inr [''a'', ''b'']"
    by code_simp
  have t: "caption_truthy (TextList [''a'', ''b''])"
    by (simp add: caption_truthy_def)
  from print_banner_too_tall [of "[''#'']" 30 "TextList [''a'', ''b'']" "[''a'', ''b'']" 1 None None None, OF _ _ t w] w t
  show ?thesis
    by (simp add: left_fill_of_def)
qed

section \<open>Filling the rows under the content\<close>

text \<open>
  Claim C7, as stated: a successful render with a background colour emits exactly
  \<open>R - (banner lines + wrapped caption lines) - 1\<close> fill lines after the content. The
  height test lets a content of exactly \<open>R\<close> lines pass (and there is no test without a
  caption), and then that number is negative while \<^verbatim>\<open>range\<close> of it is empty: on 2 rows, a
  banner of one line with a caption of one line is rendered with no fill line, and the
  number of the claim is \<open>-1\<close>.
\<close>

theorem fill_count_negative_counterexample:
  "print_banner (2, 30) [''#''] None None (Some BLACK_BG) (TextStr ''hi'') =
     (Inr (),
      [Clear,
       Print (BLACK_BG @ replicate 14 CHR '' '' @ ''#'' @ replicate 15 CHR '' '' @ RESET_COLOR),
       Print (BLACK_BG @ replicate 10 CHR '' '' @ RESET_COLOR @
              replicate 4 CHR '' '' @ ''hi'' @ replicate 4 CHR '' '' @
              BLACK_BG @ replicate 10 CHR '' '' @ RESET_COLOR)]) \<and>
   (0::int) \<noteq> 2 - (int (length [''#'']) + int (length [''hi''])) - 1"
  by code_simp

lemma caption_block_ok:
  assumes "caption_block rows cols n color_bg t = (Inr text_array, printed)"
  shows "(if caption_truthy t
          then wrap_lines (cols - 2 * margin_len) [] (text_lines t) = Inr text_array
          else text_array = []) \<and>
         printed = map (\<lambda>output. Print (caption_line cols color_bg output)) text_array"
  using assms by (auto simp: caption_block_def split: if_splits sum.splits)

lemma print_banner_ok_banner:
  assumes "print_banner (rows, cols) banner_array show_for color color_bg t = (Inr (), out)"
  shows "banner_array \<noteq> [] \<and> int (Max (length ` set banner_array)) \<le> cols"
proof -
  have ne: "banner_array \<noteq> []"
    using assms by (auto simp: print_banner_def banner_width_def)
  moreover have "int (Max (length ` set banner_array)) \<le> cols"
  proof (rule ccontr)
    assume "\<not> int (Max (length ` set banner_array)) \<le> cols"
    with ne assms show False by (simp add: print_banner_def banner_width_Max)
  qed
  ultimately show ?thesis by simp
qed

text \<open>
  Claim C7, amended. For every successful render with a background colour \<open>bg\<close> set,
  \<^verbatim>\<open>print_banner\<close> emits, after the screen clearing, the banner lines and the caption lines,
  exactly \<open>max(0, R - (banner lines + wrapped caption lines) - 1)\<close> lines more, each of
  them the background code, \<open>cols\<close> spaces and the reset code; the caption lines are the
  wrapped lines of the caption, none when no caption is supplied. Only the hold (sleep and
  clear, if asked for) follows.
\<close>

theorem print_banner_fills_bottom:
  assumes "print_banner (rows, cols) banner_array show_for color (Some bg) t = (Inr (), out)"
    and "bg \<noteq> []"
  shows "\<exists>text_array.
     (if caption_truthy t
      then wrap_lines (cols - 2 * margin_len) [] (text_lines t) = Inr text_array
      else text_array = []) \<and>
     out = Clear #
       map (\<lambda>line. Print (banner_line cols
           (left_fill_of cols (int (Max (length ` set banner_array)))) color (Some bg) line))
         banner_array @
       map (\<lambda>output. Print (caption_line cols (Some bg) output)) text_array @
       replicate (nat (rows - (int (length banner_array) + int (length text_array)) - 1))
         (Print (bg @ replicate (nat cols) CHR '' '' @ RESET_COLOR)) @
       snd (hold show_for) \<and>
     int (length (replicate (nat cols) CHR '' '')) = cols"
proof -
  note b = print_banner_ok_banner [OF assms(1)]
  then have "0 \<le> cols" by linarith
  obtain r printed where cb:
    "caption_block rows cols (int (length banner_array)) (Some bg) t = (r, printed)"
    by (cases "caption_block rows cols (int (length banner_array)) (Some bg) t") auto
  show ?thesis
  proof (cases r)
    case (Inl e)
    with assms(1) cb show ?thesis
      unfolding print_banner_drawn [OF b [THEN conjunct1] b [THEN conjunct2]] by simp
  next
    case (Inr text_array)
    with assms(1) cb have out: "out = (Clear #
       map (\<lambda>line. Print (banner_line cols
           (left_fill_of cols (int (Max (length ` set banner_array)))) color (Some bg) line))
         banner_array) @ printed @
       fill_bottom rows cols (Some bg) (int (length banner_array) + int (length text_array)) @
       snd (hold show_for)"
      unfolding print_banner_drawn [OF b [THEN conjunct1] b [THEN conjunct2]] by simp
    from caption_block_ok [OF cb [unfolded Inr]] have
      ta: "if caption_truthy t
          then wrap_lines (cols - 2 * margin_len) [] (text_lines t) = Inr text_array
          else text_array = []"
      and pr: "printed = map (\<lambda>output. Print (caption_line cols (Some bg) output)) text_array"
      by simp_all
    have fb: "fill_bottom rows cols (Some bg) (int (length banner_array) + int (length text_array)) =
       replicate (nat (rows - (int (length banner_array) + int (length text_array)) - 1))
         (Print (bg @ replicate (nat cols) CHR '' '' @ RESET_COLOR))"
      using assms(2) by (simp add: fill_bottom_def fill_line_def truthy_def code_of_def spaces_def)
    have "out = Clear #
       map (\<lambda>line. Print (banner_line cols
           (left_fill_of cols (int (Max (length ` set banner_array)))) color (Some bg) line))
         banner_array @
       map (\<lambda>output. Print (caption_line cols (Some bg) output)) text_array @
       replicate (nat (rows - (int (length banner_array) + int (length text_array)) - 1))
         (Print (bg @ replicate (nat cols) CHR '' '' @ RESET_COLOR)) @
       snd (hold show_for)"
      unfolding out pr fb by simp
    moreover have "int (length (replicate (nat cols) CHR '' '')) = cols"
      using \<open>0 \<le> cols\<close> by simp
    ultimately show ?thesis using ta
      by (intro exI [of _ text_array] conjI) assumption+
  qed
qed

theorem print_banner_fills_bottom_witness:
  "print_banner (4, 30) [''#''] (Some 3) None (Some BLACK_BG) (TextStr ''hi'') =
     (Inr (),
      [Clear,
       Print (BLACK_BG @ replicate 14 CHR '' '' @ ''#'' @ replicate 15 CHR '' '' @ RESET_COLOR),
       Print (BLACK_BG @ replicate 10 CHR '' '' @ RESET_COLOR @
              replicate 4 CHR '' '' @ ''hi'' @ replicate 4 CHR '' '' @
              BLACK_BG @ replicate 10 CHR '' '' @ RESET_COLOR)] @
      replicate (nat (4 - (1 + 1) - 1)) (Print (BLACK_BG @ replicate 30 CHR '' '' @ RESET_COLOR)) @
      [Sleep 3, Clear]) \<and>
   BLACK_BG \<noteq> [] \<and>
   (\<exists>text_array. wrap_lines (30 - 2 * margin_len) [] (text_lines (TextStr ''hi'')) = Inr text_array \<and>
      length text_array = 1)"
proof -
  have e: "print_banner (4, 30) [''#''] (Some 3) None (Some BLACK_BG) (TextStr ''hi'') =
     (Inr (),
      [Clear,
       Print (BLACK_BG @ replicate 14 CHR '' '' @ ''#'' @ replicate 15 CHR '' '' @ RESET_COLOR),
       Print (BLACK_BG @ replicate 10 CHR '' '' @ RESET_COLOR @
              replicate 4 CHR '' '' @ ''hi'' @ replicate 4 CHR '' '' @
              BLACK_BG @ replicate 10 CHR '' '' @ RESET_COLOR)] @
      replicate (nat (4 - (1 + 1) - 1)) (Print (BLACK_BG @ replicate 30 CHR '' '' @ RESET_COLOR)) @
      [Sleep 3, Clear])"
    by code_simp
  have b: "BLACK_BG \<noteq> []" by (simp add: BLACK_BG_def)
  have w: "wrap_lines (30 - 2 * margin_len) [] (text_lines (TextStr ''hi'')) = Inr [''hi'']"
    by code_simp
  from print_banner_fills_bottom [OF e b] w e b show ?thesis
    by (auto simp: caption_truthy_def)
qed

section \<open>Wrapping lines that already fit\<close>

text \<open>
  Claim C6, as stated: the wrap step of \<^verbatim>\<open>print_banner\<close> returns unchanged every list of
  lines that are each at most the target width long. \<^verbatim>\<open>textwrap.wrap\<close> does more than
  break long lines: it returns no line at all for an empty or blank line, drops the
  whitespace at the end of a line, and expands tabs. So the empty line between two
  paragraphs of a caption is lost: the lines \<^verbatim>\<open>["a", "", "b"]\<close>, wrapped to the width 5, come
  back as \<^verbatim>\<open>["a", "b"]\<close>.
\<close>

theorem wrap_drops_empty_line_counterexample:
  "wrap_lines 5 [] [''a'', [], ''b''] = Inr [''a'', ''b''] \<and>
   list_all (\<lambda>line. int (length line) \<le> 5) [''a'', [], ''b''] \<and>
   [''a'', ''b''] \<noteq> [''a'', [], ''b'']"
  by code_simp

lemma expandtabs_no_tab: "tab \<notin> set s \<Longrightarrow> expandtabs col s = s"
  by (induction s arbitrary: col) auto

lemma munge_whitespace_id:
  assumes "\<forall>c \<in> set s. is_whitespace c \<longrightarrow> c = CHR '' ''"
  shows "munge_whitespace s = s"
proof -
  have "tab \<notin> set s"
    using assms by (auto simp: is_whitespace_def tab_def)
  then have "expandtabs 0 s = s" by (rule expandtabs_no_tab)
  moreover have "map (\<lambda>c. if is_whitespace c then CHR '' '' else c) s = s"
    using assms by (induction s) auto
  ultimately show ?thesis by (simp add: munge_whitespace_def)
qed

lemma wordsep_split_concat: "concat (wordsep_split bef s) = s"
  by (induction bef s rule: wordsep_split.induct) (simp_all add: Let_def)

lemma wordsep_split_nonempty: "[] \<notin> set (wordsep_split bef s)"
proof (induction bef s rule: wordsep_split.induct)
  case (1 bef)
  show ?case by simp
next
  case (2 bef c cs)
  have "take (wordsep_match bef c cs) (c # cs) \<noteq> []"
    using wordsep_match_pos [of bef c cs] by (cases "wordsep_match bef c cs") auto
  with 2 show ?case by (simp add: Let_def)
qed

lemma last_concat:
  assumes "xs \<noteq> []" and "[] \<notin> set xs"
  shows "last (concat xs) = last (last xs)"
  using assms
proof (induction xs)
  case Nil
  then show ?case by simp
next
  case (Cons a xs)
  show ?case
  proof (cases "xs = []")
    case True
    then show ?thesis by simp
  next
    case False
    with Cons.prems have "concat xs \<noteq> []" by (cases xs) auto
    with Cons False show ?thesis by simp
  qed
qed

lemma fit_all:
  "n + int (length (concat chunks)) \<le> w \<Longrightarrow>
   fit w cl n chunks = (cl @ chunks, n + int (length (concat chunks)), [])"
proof (induction chunks arbitrary: cl n)
  case Nil
  show ?case by simp
next
  case (Cons c chunks)
  from Cons.prems have "n + int (length c) \<le> w" by simp
  moreover from Cons.prems have "(n + int (length c)) + int (length (concat chunks)) \<le> w" by simp
  from Cons.IH [OF this, of "cl @ [c]"] have
    "fit w (cl @ [c]) (n + int (length c)) chunks =
       (cl @ c # chunks, n + int (length (concat (c # chunks))), [])"
    by simp
  ultimately show ?case by simp
qed

lemma wrap_line_all:
  assumes "int (length (concat chunks)) \<le> width" and "chunks \<noteq> []" and "\<not> blank (last chunks)"
  shows "wrap_line width False chunks = (chunks, [])"
proof -
  have "fit width [] 0 chunks = (chunks, int (length (concat chunks)), [])"
    using fit_all [of 0 chunks width "[]"] assms(1) by simp
  moreover have "(case chunks of [] \<Rightarrow> [] | chunk # rest \<Rightarrow> if blank chunk \<and> False then rest else chunks) = chunks"
    by (cases chunks) auto
  ultimately show ?thesis
    using assms(2,3) by (simp add: wrap_line_def)
qed

lemma wrap_chunks_all:
  assumes "0 < width" and "int (length (concat chunks)) \<le> width" and "chunks \<noteq> []"
    and "\<not> blank (last chunks)"
  shows "wrap_chunks width chunks = Inr [concat chunks]"
proof -
  have "wrap_chunks_from width [] chunks = wrap_chunks_from width [concat chunks] []"
    using assms(1,3) wrap_line_all [OF assms(2,3,4)]
    by (subst wrap_chunks_from.simps) simp
  also have "\<dots> = Inr [concat chunks]"
    using assms(1) by (subst wrap_chunks_from.simps) simp
  finally show ?thesis by (simp add: wrap_chunks_def)
qed

lemma wrap_unchanged:
  assumes "0 < width" and "line \<noteq> []" and "int (length line) \<le> width"
    and "\<not> isspace (last line)" and "\<forall>c \<in> set line. is_whitespace c \<longrightarrow> c = CHR '' ''"
  shows "wrap line width = Inr [line]"
proof -
  let ?chunks = "wordsep_split [] line"
  have m: "munge_whitespace line = line"
    using assms(5) by (rule munge_whitespace_id)
  have ne: "[] \<notin> set ?chunks" by (rule wordsep_split_nonempty)
  then have sc: "split_chunks line = ?chunks"
    by (auto simp: split_chunks_def m filter_id_conv)
  have cc: "concat ?chunks = line" by (rule wordsep_split_concat)
  with assms(2) have c0: "?chunks \<noteq> []" by auto
  from last_concat [OF c0 ne] cc have ll: "last (last ?chunks) = last line" by simp
  from c0 ne have "last ?chunks \<noteq> []" by (metis last_in_set)
  then have "last (last ?chunks) \<in> set (last ?chunks)" by (rule last_in_set)
  moreover have "\<not> isspace (last (last ?chunks))"
    unfolding ll by (rule assms(4))
  ultimately have "\<not> blank (last ?chunks)"
    unfolding blank_def list_all_iff by blast
  from wrap_chunks_all [OF assms(1) _ c0 this] assms(3) cc show ?thesis
    by (simp add: wrap_def sc)
qed

lemma wrap_lines_unchanged_from:
  assumes "0 < width"
    and "\<forall>line \<in> set lines. line \<noteq> [] \<and> int (length line) \<le> width \<and> \<not> isspace (last line) \<and>
        (\<forall>c \<in> set line. is_whitespace c \<longrightarrow> c = CHR '' '')"
  shows "wrap_lines width text_array lines = Inr (text_array @ lines)"
  using assms(2)
proof (induction lines arbitrary: text_array)
  case Nil
  show ?case by simp
next
  case (Cons line lines)
  then have "wrap line width = Inr [line]"
    using wrap_unchanged [OF assms(1), of line] by simp
  with Cons show ?case by simp
qed

text \<open>
  Claim C6, amended. For a positive target width, the wrap step returns unchanged every
  list of lines each of which is not empty, is at most the target width long, does not end
  in a whitespace character, and holds no whitespace character other than the space (no
  tab, newline, vertical tab, form feed or carriage return).
\<close>

theorem wrap_lines_unchanged:
  assumes "0 < width"
    and "\<forall>line \<in> set lines. line \<noteq> [] \<and> int (length line) \<le> width \<and> \<not> isspace (last line) \<and>
        (\<forall>c \<in> set line. is_whitespace c \<longrightarrow> c = CHR '' '')"
  shows "wrap_lines width [] lines = Inr lines"
  using wrap_lines_unchanged_from [OF assms, of "[]"] by simp

theorem wrap_lines_unchanged_witness:
  "(0::int) < 12 \<and>
   wrap_lines 12 [] [''Hello there'', '' -- you'', ''goof-ball,''] =
     Inr [''Hello there'', '' -- you'', ''goof-ball,'']"
  using wrap_lines_unchanged [of 12 "[''Hello there'', '' -- you'', ''goof-ball,'']"]
  by (simp add: isspace_def is_whitespace_def)

section \<open>Playing a sound\<close>

lemma on_path_loop_iff:
  "on_path_loop os cmd paths \<longleftrightarrow>
     (\<exists>dir \<in> set paths. isfile os (path_join (strip_quotes dir) cmd) \<and>
        access_X_OK os (path_join (strip_quotes dir) cmd))"
  by (induction paths) (auto simp: Let_def)

lemma on_path_iff:
  "on_path os cmd = Inr True \<longleftrightarrow>
     (\<exists>p. environ_PATH os = Some p \<and>
        (\<exists>dir \<in> set (split_str pathsep p). isfile os (path_join (strip_quotes dir) cmd) \<and>
           access_X_OK os (path_join (strip_quotes dir) cmd)))"
  by (auto simp: on_path_def on_path_loop_iff split: option.splits)

lemma on_path_False_iff:
  "on_path os cmd = Inr False \<longleftrightarrow>
     (\<exists>p. environ_PATH os = Some p \<and>
        \<not> (\<exists>dir \<in> set (split_str pathsep p). isfile os (path_join (strip_quotes dir) cmd) \<and>
           access_X_OK os (path_join (strip_quotes dir) cmd)))"
  by (auto simp: on_path_def on_path_loop_iff split: option.splits)

lemma play_Popen:
  assumes "Popen argv \<in> set (snd (play os sound_path blocking))"
  shows "isfile os sound_path \<and>
    (\<exists>player \<in> {''omxplayer'', ''afplay''}. argv = [player, sound_path] \<and> on_path os player = Inr True)"
  using assms
  by (auto simp: play_def spawn_def split: if_splits sum.splits bool.splits)

text \<open>
  What holds of \<^verbatim>\<open>play\<close>. When the sound file does not exist, \<^verbatim>\<open>play\<close> prints its message
  and returns normally, with no process. When the file exists, \<^verbatim>\<open>PATH\<close> is set and no
  directory of it holds an executable file named \<^verbatim>\<open>omxplayer\<close> or \<^verbatim>\<open>afplay\<close>, it prints its
  other message and returns normally, with no process. And a child process is spawned only
  when the file exists and one of the two players is an executable file in a directory of
  \<^verbatim>\<open>PATH\<close> (the quotes of the entry stripped); the process is that player on the sound file.
\<close>

lemma play_with_search_path:
  "(\<not> isfile os sound_path \<longrightarrow>
      play os sound_path blocking =
        (Inr (), [Print (''Sound '' @ [CHR 0x27] @ sound_path @ [CHR 0x27] @ '' not found.'')])) \<and>
   (isfile os sound_path \<and> environ_PATH os = Some p \<and>
    (\<forall>dir \<in> set (split_str pathsep p). \<forall>player \<in> {''omxplayer'', ''afplay''}.
        \<not> (isfile os (path_join (strip_quotes dir) player) \<and>
           access_X_OK os (path_join (strip_quotes dir) player))) \<longrightarrow>
      play os sound_path blocking = (Inr (), [Print ''No player found on this platform.''])) \<and>
   (\<forall>argv. Popen argv \<in> set (snd (play os sound_path blocking)) \<longrightarrow>
      isfile os sound_path \<and>
      (\<exists>player \<in> {''omxplayer'', ''afplay''}. \<exists>q. \<exists>dir \<in> set (split_str pathsep q).
         argv = [player, sound_path] \<and> environ_PATH os = Some q \<and>
         isfile os (path_join (strip_quotes dir) player) \<and>
         access_X_OK os (path_join (strip_quotes dir) player)))"
proof (intro conjI impI allI)
  assume "\<not> isfile os sound_path"
  then show "play os sound_path blocking =
        (Inr (), [Print (''Sound '' @ [CHR 0x27] @ sound_path @ [CHR 0x27] @ '' not found.'')])"
    by (simp add: play_def)
next
  assume a: "isfile os sound_path \<and> environ_PATH os = Some p \<and>
    (\<forall>dir \<in> set (split_str pathsep p). \<forall>player \<in> {''omxplayer'', ''afplay''}.
        \<not> (isfile os (path_join (strip_quotes dir) player) \<and>
           access_X_OK os (path_join (strip_quotes dir) player)))"
  then have "on_path os ''omxplayer'' = Inr False" and "on_path os ''afplay'' = Inr False"
    unfolding on_path_False_iff by auto
  with a show "play os sound_path blocking = (Inr (), [Print ''No player found on this platform.''])"
    by (simp add: play_def)
next
  fix argv
  assume "Popen argv \<in> set (snd (play os sound_path blocking))"
  from play_Popen [OF this] obtain player where
    f: "isfile os sound_path" and pl: "player \<in> {''omxplayer'', ''afplay''}"
    and av: "argv = [player, sound_path]" and op: "on_path os player = Inr True"
    by blast
  from op obtain q dir where "environ_PATH os = Some q" and "dir \<in> set (split_str pathsep q)"
    and "isfile os (path_join (strip_quotes dir) player)"
    and "access_X_OK os (path_join (strip_quotes dir) player)"
    unfolding on_path_iff by blast
  with pl av show "\<exists>player \<in> {''omxplayer'', ''afplay''}. \<exists>q. \<exists>dir \<in> set (split_str pathsep q).
         argv = [player, sound_path] \<and> environ_PATH os = Some q \<and>
         isfile os (path_join (strip_quotes dir) player) \<and>
         access_X_OK os (path_join (strip_quotes dir) player)"
    by blast
  from f show "isfile os sound_path" .
qed

text \<open>
  \<^verbatim>\<open>play\<close> can raise all the same, although its docstring lists no exception. Without a
  variable \<^verbatim>\<open>PATH\<close>, \<^verbatim>\<open>os.environ["PATH"]\<close> raises \<^verbatim>\<open>KeyError\<close> in \<^verbatim>\<open>_on_path\<close>, for every sound
  file that exists. And where \<^verbatim>\<open>_on_path\<close> finds the player but the system cannot start it,
  \<^verbatim>\<open>Popen\<close> raises: there is then no child process and no wait.
\<close>

lemma play_no_PATH:
  assumes "isfile os sound_path" and "environ_PATH os = None"
  shows "play os sound_path blocking = (Inl (KeyError ''PATH''), [])"
  using assms by (simp add: play_def on_path_def)

lemma play_popen_fails:
  assumes "isfile os sound_path" and "on_path os ''omxplayer'' = Inr False"
    and "on_path os ''afplay'' = Inr True" and "popen_fails os [''afplay'', sound_path]"
  shows "play os sound_path blocking = (Inl OSError, [])"
  using assms by (simp add: play_def spawn_def)

lemma play_os_mac:
  "play os_mac ''sounds/tada.wav'' True = (Inr (), [Popen [''afplay'', ''sounds/tada.wav''], Wait])"
  by (simp add: os_mac_def play_def on_path_def split_str_def pathsep_def path_join_def
      strip_quotes_def spawn_def)

lemma play_quoted_PATH:
  "play os_quoted_PATH ''sounds/tada.wav'' True = (Inl OSError, [])"
  by (simp add: os_quoted_PATH_def os_mac_def play_def on_path_def split_str_def pathsep_def
      path_join_def strip_quotes_def spawn_def)

text \<open>
  Claim C8. \<^verbatim>\<open>play\<close> spawns a child process only when the sound file exists and one of
  the known players is present and executable on the search path; when the file does not
  exist, or when no known player is found, it prints a message and returns normally,
  raising nothing and spawning nothing. The code breaks the last part where the process
  has no variable \<^verbatim>\<open>PATH\<close>: the sound file \<^verbatim>\<open>sounds/tada.wav\<close> exists, no player can be found
  for want of a search path, and \<^verbatim>\<open>play\<close> does not print its message and return but raises
  \<^verbatim>\<open>KeyError\<close> from \<^verbatim>\<open>os.environ["PATH"]\<close>, having spawned nothing.
\<close>

theorem play_without_PATH_raises:
  "isfile os_no_PATH ''sounds/tada.wav'' \<and>
   environ_PATH os_no_PATH = None \<and>
   play os_no_PATH ''sounds/tada.wav'' False = (Inl (KeyError ''PATH''), []) \<and>
   play os_no_PATH ''sounds/tada.wav'' False \<noteq> (Inr (), [Print ''No player found on this platform.''])"
  by (simp add: os_no_PATH_def os_mac_def play_def on_path_def)

end
